theory Spec2Isabelle
  imports Complex_Main "HOL-Library.Word"
begin

unbundle bit_operations_syntax

section \<open>Data model of the resilient HTTP client\<close>

text \<open>
  A shallow embedding of package \<open>resilient\<close> (\<open>client.go\<close> and the options file).
  \<^item> \<open>time.Duration\<close> is a signed 64-bit count of nanoseconds: a \<open>64 word\<close> read with
    \<open>sint\<close>; arithmetic on it wraps as Go's does.
  \<^item> \<open>rate.Limit\<close> and the other \<open>float64\<close> values are real numbers: the arithmetic the
    code does on them is taken exactly, the conversion back to an integer truncates
    towards zero.
  \<^item> Go's \<open>int\<close> is an \<open>int\<close>; the three \<open>atomic.Uint64\<close> counters are \<open>64 word\<close>s.
  \<^item> A callback is known by its identity only; calling it leaves an event in the
    client's event log.
\<close>

type_synonym duration = "64 word"
type_synonym callback = nat

definition Millisecond :: duration where
  "Millisecond = 1000000"

definition Second :: duration where
  "Second = 1000000000"

definition Minute :: duration where
  "Minute = 60 * Second"

text \<open>Errors. \<open>External\<close> is an error value produced outside the package (context,
  transport, reader); the other constructors are the \<open>fmt.Errorf\<close> wrappers of \<open>Do\<close>.\<close>

datatype err =
    External string
  | RateLimitWait err
  | ReadRequestBody err
  | HttpRequest err
  | ReadResponse err
  | HTTPRetry int string string
  | HTTPStatus int string
  | MaxRetriesExceeded int "err option"

text \<open>A byte stream: the bytes it delivers, then end of file or a read error.\<close>

record stream =
  bytes :: string
  failure :: "err option"

record response =
  StatusCode :: int
  RetryAfter :: string
  Body :: stream

datatype req_body = NilBody | NoBody | ReqBody stream

record request =
  Method :: string
  URL :: string
  reqBody :: req_body

type_synonym RetryPolicy = "int \<Rightarrow> response option \<Rightarrow> err option \<Rightarrow> bool"

record http_client =
  Timeout :: duration

record config =
  baseURL :: string
  rps :: real
  burst :: int
  maxRetries :: int
  initialBackoff :: duration
  adaptiveCooldown :: duration
  maxResponseSize :: int
  timeout :: duration
  retryableStatus :: "int \<rightharpoonup> bool"
  httpClient :: "http_client option"
  onError :: "callback option"
  onSuccess :: "callback option"
  onRateLimited :: "callback option"
  requestHook :: "callback option"
  responseHook :: "callback option"
  retryPolicy :: "RetryPolicy option"

definition StatusTooManyRequests :: int where
  "StatusTooManyRequests = 429"

definition StatusServiceUnavailable :: int where
  "StatusServiceUnavailable = 503"

definition defaultConfig :: config where
  "defaultConfig = \<lparr>
     baseURL = '''',
     rps = 0,
     burst = 1,
     maxRetries = 3,
     initialBackoff = 2 * Second,
     adaptiveCooldown = 5 * Minute,
     maxResponseSize = 10 * 1024 * 1024,
     timeout = 30 * Second,
     retryableStatus = [StatusTooManyRequests \<mapsto> True, StatusServiceUnavailable \<mapsto> True],
     httpClient = None,
     onError = None,
     onSuccess = None,
     onRateLimited = None,
     requestHook = None,
     responseHook = None,
     retryPolicy = None \<rparr>"

subsection \<open>Functional options\<close>

datatype Option =
    WithBaseURL string
  | WithRateLimit real int
  | WithRetry int duration
  | WithAdaptive duration
  | WithTimeout duration
  | WithMaxResponseSize int
  | WithRetryableStatus "int list"
  | WithHTTPClient "http_client option"
  | WithOnError "callback option"
  | WithOnSuccess "callback option"
  | WithOnRateLimited "callback option"
  | WithRequestHook "callback option"
  | WithResponseHook "callback option"
  | WithRetryPolicy "RetryPolicy option"

text \<open>\<open>applyOption opt c\<close> is the call \<open>opt(c)\<close> of the closure an option constructor returns.\<close>

fun applyOption :: "Option \<Rightarrow> config \<Rightarrow> config" where
  "applyOption (WithBaseURL url) c = c\<lparr>baseURL := url\<rparr>"
| "applyOption (WithRateLimit r b) c =
     (let c1 = c\<lparr>rps := r\<rparr> in if b > 0 then c1\<lparr>burst := b\<rparr> else c1)"
| "applyOption (WithRetry m b) c = c\<lparr>maxRetries := m, initialBackoff := b\<rparr>"
| "applyOption (WithAdaptive cooldown) c = c\<lparr>adaptiveCooldown := cooldown\<rparr>"
| "applyOption (WithTimeout d) c = c\<lparr>timeout := d\<rparr>"
| "applyOption (WithMaxResponseSize n) c = c\<lparr>maxResponseSize := n\<rparr>"
| "applyOption (WithRetryableStatus codes) c =
     c\<lparr>retryableStatus := foldl (\<lambda>m code. m(code \<mapsto> True)) Map.empty codes\<rparr>"
| "applyOption (WithHTTPClient hc) c = c\<lparr>httpClient := hc\<rparr>"
| "applyOption (WithOnError fn) c = c\<lparr>onError := fn\<rparr>"
| "applyOption (WithOnSuccess fn) c = c\<lparr>onSuccess := fn\<rparr>"
| "applyOption (WithOnRateLimited fn) c = c\<lparr>onRateLimited := fn\<rparr>"
| "applyOption (WithRequestHook fn) c = c\<lparr>requestHook := fn\<rparr>"
| "applyOption (WithResponseHook fn) c = c\<lparr>responseHook := fn\<rparr>"
| "applyOption (WithRetryPolicy p) c = c\<lparr>retryPolicy := p\<rparr>"

text \<open>The loop of \<open>New\<close> over its options, starting from \<open>defaultConfig\<close>.\<close>

definition buildConfig :: "Option list \<Rightarrow> config" where
  "buildConfig opts = foldl (\<lambda>c opt. applyOption opt c) defaultConfig opts"

subsection \<open>The client\<close>

text \<open>The token bucket of \<open>golang.org/x/time/rate\<close>, as far as the client sets it.\<close>

record limiter_state =
  limit :: real
  bucket :: int

text \<open>A \<open>time.Timer\<close> made by \<open>time.AfterFunc\<close>: pending until its deadline, then expired.\<close>

datatype timer = Pending int | Expired

datatype event =
    EvRequestHook callback
  | EvTransport int "string option"
  | EvResponseHook callback
  | EvOnRateLimited callback
  | EvOnError callback int
  | EvOnSuccess callback
  | EvSleep duration

record client =
  hc :: http_client
  limiter :: "limiter_state option"
  cfg :: config
  originalRate :: real
  adaptiveTimer :: "timer option"
  closedFlag :: bool
  totalReqs :: "64 word"
  totalErrors :: "64 word"
  rateLimited :: "64 word"
  inflight :: nat
  events :: "event list"

text \<open>\<open>inflight\<close> counts restore callbacks whose timer has expired and which have not
  yet taken the mutex; \<open>events\<close> is the log of callback and transport calls.\<close>

definition NewLimiter :: "real \<Rightarrow> int \<Rightarrow> limiter_state" where
  "NewLimiter r b = \<lparr>limit = r, bucket = b\<rparr>"

definition New :: "Option list \<Rightarrow> client" where
  "New opts =
     (let c = buildConfig opts;
          h = (case httpClient c of None \<Rightarrow> \<lparr>Timeout = timeout c\<rparr> | Some x \<Rightarrow> x);
          lim = (if rps c > 0 then Some (NewLimiter (rps c) (burst c)) else None)
      in \<lparr>hc = h, limiter = lim, cfg = c, originalRate = rps c, adaptiveTimer = None,
          closedFlag = False, totalReqs = 0, totalErrors = 0, rateLimited = 0,
          inflight = 0, events = []\<rparr>)"

subsection \<open>The retry decision\<close>

text \<open>Reading a Go \<open>map[int]bool\<close>: a missing key reads as \<open>false\<close>.\<close>

definition lookupStatus :: "(int \<rightharpoonup> bool) \<Rightarrow> int \<Rightarrow> bool" where
  "lookupStatus m k = (case m k of None \<Rightarrow> False | Some b \<Rightarrow> b)"

definition shouldRetry :: "config \<Rightarrow> int \<Rightarrow> response option \<Rightarrow> err option \<Rightarrow> bool" where
  "shouldRetry c attempt resp e =
     (if attempt \<ge> maxRetries c then False
      else case retryPolicy c of
        Some p \<Rightarrow> p attempt resp e
      | None \<Rightarrow>
          (if e \<noteq> None then True
           else case resp of
             Some r \<Rightarrow> lookupStatus (retryableStatus c) (StatusCode r)
           | None \<Rightarrow> False))"

text \<open>The five steps of the specification's decision function, written from its words;
  the retryable status set is the set of keys the map holds \<open>true\<close> for.\<close>

definition retryableStatusSet :: "config \<Rightarrow> int set" where
  "retryableStatusSet c = {k. retryableStatus c k = Some True}"

definition shouldRetry_spec :: "config \<Rightarrow> int \<Rightarrow> response option \<Rightarrow> err option \<Rightarrow> bool" where
  "shouldRetry_spec c attempt resp e =
     (if attempt \<ge> maxRetries c then False
      else if retryPolicy c \<noteq> None then (the (retryPolicy c)) attempt resp e
      else if e \<noteq> None then True
      else if resp \<noteq> None then StatusCode (the resp) \<in> retryableStatusSet c
      else False)"

subsection \<open>Backoff\<close>

text \<open>Converting a \<open>float64\<close> to \<open>time.Duration\<close> truncates towards zero. Where the
  truncated value does not fit into 64 bits the result depends on the implementation:
  \<open>impl\<close> stands for it, and \<open>indefinite\<close> is what amd64 gives.\<close>

definition indefinite :: "real \<Rightarrow> duration" where
  "indefinite x = push_bit 63 1"

definition toDuration :: "(real \<Rightarrow> duration) \<Rightarrow> real \<Rightarrow> duration" where
  "toDuration impl x =
     (let t = (if x \<ge> 0 then \<lfloor>x\<rfloor> else \<lceil>x\<rceil>)
      in if - (2 ^ 63) \<le> t \<and> t < 2 ^ 63 then word_of_int t else impl x)"

text \<open>\<open>base\<close> of \<open>backoffDuration\<close>: a shift by 64 or more gives 0 and the product wraps.\<close>

definition backoffBase :: "config \<Rightarrow> int \<Rightarrow> duration" where
  "backoffBase c attempt = initialBackoff c * push_bit (nat (attempt - 1)) 1"

text \<open>The jittered delay before the guard; \<open>u\<close> is the value of \<open>rand.Float64()\<close>.\<close>

definition jittered :: "(real \<Rightarrow> duration) \<Rightarrow> duration \<Rightarrow> real \<Rightarrow> duration" where
  "jittered impl base u =
     (let jitter = real_of_int (sint base) * 0.25 * (u * 2 - 1)
      in toDuration impl (real_of_int (sint base) + jitter))"

text \<open>\<open>None\<close> is the run-time panic of a shift by a negative amount. \<open>attempt\<close> ranges over
  Go's \<open>int\<close>.\<close>

definition backoffDuration ::
  "(real \<Rightarrow> duration) \<Rightarrow> config \<Rightarrow> int \<Rightarrow> int \<Rightarrow> real \<Rightarrow> duration option" where
  "backoffDuration impl c attempt lastStatus u =
     (if attempt - 1 < 0 then None
      else
        let base = backoffBase c attempt;
            d = jittered impl base u
        in Some (if d <s 0 then initialBackoff c else d))"

definition BackoffDuration ::
  "(real \<Rightarrow> duration) \<Rightarrow> config \<Rightarrow> int \<Rightarrow> real \<Rightarrow> duration option" where
  "BackoffDuration impl c attempt u = backoffDuration impl c attempt 0 u"

subsection \<open>Adaptive throttling\<close>

definition SetLimit :: "real \<Rightarrow> limiter_state \<Rightarrow> limiter_state" where
  "SetLimit r l = l\<lparr>limit := r\<rparr>"

definition SetBurst :: "int \<Rightarrow> limiter_state \<Rightarrow> limiter_state" where
  "SetBurst b l = l\<lparr>bucket := b\<rparr>"

text \<open>\<open>Close\<close>: the flag is set, a timer is stopped and the handle cleared.\<close>

definition Close :: "client \<Rightarrow> client" where
  "Close c = c\<lparr>closedFlag := True, adaptiveTimer := None\<rparr>"

definition SetRateLimit :: "real \<Rightarrow> int \<Rightarrow> client \<Rightarrow> client" where
  "SetRateLimit r b c =
     (let newRate = r;
          lim = (case limiter c of
                   None \<Rightarrow> NewLimiter newRate b
                 | Some l \<Rightarrow> SetBurst b (SetLimit newRate l))
      in c\<lparr>limiter := Some lim, originalRate := newRate\<rparr>)"

text \<open>\<open>reduceRateLimit\<close> at clock reading \<open>now\<close> (nanoseconds). Stopping the old timer and
  arming the new one is the replacement of the handle: a stopped timer never expires.\<close>

definition reduceRateLimit :: "int \<Rightarrow> client \<Rightarrow> client" where
  "reduceRateLimit now c =
     (case limiter c of
        None \<Rightarrow> c
      | Some l \<Rightarrow>
          if closedFlag c then c
          else
            let reduced = originalRate c / 2;
                reduced = (if reduced < 0.01 then 0.01 else reduced)
            in c\<lparr>limiter := Some (SetLimit reduced l),
                 adaptiveTimer := Some (Pending (now + sint (adaptiveCooldown (cfg c))))\<rparr>)"

text \<open>The function given to \<open>time.AfterFunc\<close>, run under the mutex.\<close>

definition restoreCallback :: "client \<Rightarrow> client" where
  "restoreCallback c =
     (case limiter c of
        None \<Rightarrow> c
      | Some l \<Rightarrow>
          if \<not> closedFlag c then c\<lparr>limiter := Some (SetLimit (originalRate c) l)\<rparr> else c)"

text \<open>The runtime's side of the timer: at or after its deadline a pending timer expires
  and its callback is started; the callback runs once it gets the mutex.\<close>

definition timerExpire :: "int \<Rightarrow> client \<Rightarrow> client" where
  "timerExpire now c =
     (case adaptiveTimer c of
        Some (Pending t) \<Rightarrow>
          if t \<le> now then c\<lparr>adaptiveTimer := Some Expired, inflight := inflight c + 1\<rparr> else c
      | _ \<Rightarrow> c)"

definition timerCallback :: "client \<Rightarrow> client" where
  "timerCallback c =
     (if inflight c > 0 then restoreCallback (c\<lparr>inflight := inflight c - 1\<rparr>) else c)"

text \<open>A restore timer is armed when the handle holds a pending timer.\<close>

definition armed :: "client \<Rightarrow> bool" where
  "armed c = (case adaptiveTimer c of Some (Pending t) \<Rightarrow> True | _ \<Rightarrow> False)"

definition effectiveRate :: "client \<Rightarrow> real option" where
  "effectiveRate c = map_option limit (limiter c)"

definition rateBelowOriginal :: "client \<Rightarrow> bool" where
  "rateBelowOriginal c =
     (case limiter c of None \<Rightarrow> False | Some l \<Rightarrow> limit l < originalRate c)"

text \<open>A run of retryable observations, one \<open>reduceRateLimit\<close> per clock reading.\<close>

definition reduceAll :: "int list \<Rightarrow> client \<Rightarrow> client" where
  "reduceAll ts c = foldl (\<lambda>c t. reduceRateLimit t c) c ts"

subsection \<open>Retry-After\<close>

text \<open>A \<open>float64\<close>: a finite value (taken as the real number it denotes), an infinity or
  NaN.\<close>

datatype float64 = Finite real | PosInf | NegInf | NaN

datatype layout = RFC1123 | RFC850 | ANSIC

text \<open>What \<open>parseRetryAfter\<close> calls in the standard library. \<open>ParseFloat\<close> and \<open>Parse\<close> return
  \<open>None\<close> for a non-nil error; a \<open>time.Time\<close> is an instant in nanoseconds since the
  epoch. \<open>outOfRange\<close> and \<open>nonFinite\<close> are the implementation-dependent results of
  converting a float that does not fit to an integer.\<close>

record platform =
  TrimSpace :: "string \<Rightarrow> string"
  ParseFloat :: "string \<Rightarrow> float64 option"
  Parse :: "layout \<Rightarrow> string \<Rightarrow> int option"
  outOfRange :: "real \<Rightarrow> duration"
  nonFinite :: duration

fun Ceil :: "float64 \<Rightarrow> float64" where
  "Ceil (Finite x) = Finite (real_of_int \<lceil>x\<rceil>)"
| "Ceil f = f"

text \<open>\<open>secs >= 0\<close>: false for NaN.\<close>

fun geZero :: "float64 \<Rightarrow> bool" where
  "geZero (Finite x) = (0 \<le> x)"
| "geZero PosInf = True"
| "geZero NegInf = False"
| "geZero NaN = False"

definition float64ToDuration :: "platform \<Rightarrow> float64 \<Rightarrow> duration" where
  "float64ToDuration P f =
     (case f of Finite x \<Rightarrow> toDuration (outOfRange P) x | _ \<Rightarrow> nonFinite P)"

text \<open>\<open>time.Until(t)\<close> at clock reading \<open>now\<close>: the difference, saturated to the range of
  \<open>time.Duration\<close>.\<close>

definition Until :: "int \<Rightarrow> int \<Rightarrow> duration" where
  "Until now t = word_of_int (max (- (2 ^ 63)) (min (2 ^ 63 - 1) (t - now)))"

text \<open>The loop over the three layouts.\<close>

fun tryLayouts :: "platform \<Rightarrow> int \<Rightarrow> string \<Rightarrow> layout list \<Rightarrow> duration" where
  "tryLayouts P now val [] = 0"
| "tryLayouts P now val (l # ls) =
     (case Parse P l val of
        Some t \<Rightarrow> (let d = Until now t in if d <s 0 then 0 else d)
      | None \<Rightarrow> tryLayouts P now val ls)"

definition parseRetryAfter :: "platform \<Rightarrow> int \<Rightarrow> string \<Rightarrow> duration" where
  "parseRetryAfter P now val0 =
     (if val0 = [] then 0
      else
        let val = TrimSpace P val0 in
        case (case ParseFloat P val of
                Some secs \<Rightarrow> if geZero secs then Some secs else None
              | None \<Rightarrow> None) of
          Some secs \<Rightarrow> float64ToDuration P (Ceil secs) * Second
        | None \<Rightarrow> tryLayouts P now val [RFC1123, RFC850, ANSIC])"

text \<open>A platform to run \<open>parseRetryAfter\<close> on: ASCII white space is trimmed, \<open>ParseFloat\<close>
  reads plain decimals (an optional sign, digits, an optional fraction; the value is
  taken exactly), \<open>Parse\<close> knows the three example dates of RFC 7231, all the instant
  784111777 s, and conversions that do not fit give what amd64 gives.\<close>

definition isSpace :: "char \<Rightarrow> bool" where
  "isSpace ch = (ch \<in> set [CHR '' '', CHR 0x09, CHR 0x0A, CHR 0x0B, CHR 0x0C, CHR 0x0D])"

definition trimAscii :: "string \<Rightarrow> string" where
  "trimAscii s = rev (dropWhile isSpace (rev (dropWhile isSpace s)))"

definition isDigit :: "char \<Rightarrow> bool" where
  "isDigit ch = ((48::nat) \<le> of_char ch \<and> of_char ch \<le> (57::nat))"

definition digitsValue :: "string \<Rightarrow> nat" where
  "digitsValue ds = foldl (\<lambda>n ch. 10 * n + (of_char ch - 48)) 0 ds"

definition parseUnsigned :: "string \<Rightarrow> real option" where
  "parseUnsigned s =
     (let ip = takeWhile (\<lambda>ch. ch \<noteq> CHR ''.'') s;
          fp = drop (length ip + 1) s
      in if (ip = [] \<and> fp = []) \<or> \<not> list_all isDigit ip \<or> \<not> list_all isDigit fp then None
         else Some (real (digitsValue ip) + real (digitsValue fp) / 10 ^ length fp))"

definition parseDecimal :: "string \<Rightarrow> float64 option" where
  "parseDecimal s =
     (case s of
        [] \<Rightarrow> None
      | ch # rest \<Rightarrow>
          if ch = CHR ''-'' then map_option (\<lambda>x. Finite (- x)) (parseUnsigned rest)
          else if ch = CHR ''+'' then map_option Finite (parseUnsigned rest)
          else map_option Finite (parseUnsigned s))"

definition parseExamples :: "layout \<Rightarrow> string \<Rightarrow> int option" where
  "parseExamples l s =
     (if (l = RFC1123 \<and> s = ''Sun, 06 Nov 1994 08:49:37 GMT'')
         \<or> (l = RFC850 \<and> s = ''Sunday, 06-Nov-94 08:49:37 GMT'')
         \<or> (l = ANSIC \<and> s = ''Sun Nov  6 08:49:37 1994'')
      then Some 784111777000000000 else None)"

definition amd64 :: platform where
  "amd64 = \<lparr>TrimSpace = trimAscii, ParseFloat = parseDecimal, Parse = parseExamples,
             outOfRange = indefinite, nonFinite = push_bit 63 1\<rparr>"

subsection \<open>Executing a request\<close>

text \<open>What the world does during one attempt: whether the context is done before the
  backoff timer (\<open>ctxDone\<close>, the value of \<open>ctx.Err()\<close>), the result of the limiter's \<open>Wait\<close>
  before the attempt, the value of \<open>rand.Float64()\<close>, the result of the round trip, and
  the clock reading at which the response is classified.\<close>

record attempt_env =
  ctxDone :: "err option"
  waitErr :: "err option"
  rand :: real
  roundTrip :: "err + response"
  clock :: int

record do_env =
  firstWait :: "err option"
  attempts :: "int \<Rightarrow> attempt_env"

text \<open>A call of \<open>Do\<close> returns its three results, or panics.\<close>

datatype outcome = Returned "string option" int "err option" | Panicked

datatype step_result =
    Continue client "err option" int
  | Return "string option" int "err option" client
  | Panic client

definition logEvent :: "event \<Rightarrow> client \<Rightarrow> client" where
  "logEvent ev c = c\<lparr>events := events c @ [ev]\<rparr>"

text \<open>Calling a callback slot if it is not nil.\<close>

definition notify :: "callback option \<Rightarrow> (callback \<Rightarrow> event) \<Rightarrow> client \<Rightarrow> client" where
  "notify slot ev c = (case slot of None \<Rightarrow> c | Some fn \<Rightarrow> logEvent (ev fn) c)"

definition waitRateLimit :: "client \<Rightarrow> err option \<Rightarrow> err option" where
  "waitRateLimit c w = (if limiter c = None then None else w)"

text \<open>\<open>io.ReadAll\<close> of a stream, and of a stream behind \<open>io.LimitReader\<close>: after \<open>n\<close> bytes
  the limited reader reports end of file and the stream's own failure is never met.\<close>

definition readAll :: "stream \<Rightarrow> err + string" where
  "readAll st = (case failure st of None \<Rightarrow> Inr (bytes st) | Some e \<Rightarrow> Inl e)"

definition readAllLimited :: "int \<Rightarrow> stream \<Rightarrow> err + string" where
  "readAllLimited n st =
     (if n \<le> int (length (bytes st)) then Inr (take (nat n) (bytes st)) else readAll st)"

text \<open>Capturing the request body for the retries; \<open>None\<close> is the nil slice.\<close>

definition captureBody :: "req_body \<Rightarrow> err + string option" where
  "captureBody b =
     (case b of
        NilBody \<Rightarrow> Inr None
      | NoBody \<Rightarrow> Inr None
      | ReqBody st \<Rightarrow> (case readAll st of Inl e \<Rightarrow> Inl e | Inr bs \<Rightarrow> Inr (Some bs)))"

text \<open>The wait before a retry: backoff, sleep unless the context is done, then the
  limiter. \<open>Inl\<close> leaves the loop.\<close>

definition beforeRetry ::
  "platform \<Rightarrow> config \<Rightarrow> client \<Rightarrow> attempt_env \<Rightarrow> int \<Rightarrow> int \<Rightarrow> step_result + client" where
  "beforeRetry P k c e attempt lastStatus =
     (case backoffDuration (outOfRange P) k attempt lastStatus (rand e) of
        None \<Rightarrow> Inl (Panic c)
      | Some backoff \<Rightarrow>
          (case ctxDone e of
             Some ce \<Rightarrow> Inl (Return None 0 (Some ce) c)
           | None \<Rightarrow>
               let c1 = logEvent (EvSleep backoff) c in
               (case waitRateLimit c1 (waitErr e) of
                  Some we \<Rightarrow> Inl (Return None 0 (Some (RateLimitWait we)) c1)
                | None \<Rightarrow> Inr c1)))"

text \<open>The classification of a response whose body has been read.\<close>

definition classify ::
  "platform \<Rightarrow> config \<Rightarrow> client \<Rightarrow> request \<Rightarrow> attempt_env \<Rightarrow> int \<Rightarrow> response \<Rightarrow> string
   \<Rightarrow> step_result" where
  "classify P k c req e attempt resp respBody =
     (let lastStatus = StatusCode resp in
      if shouldRetry k attempt (Some resp) None then
        let c1 = (if StatusCode resp = StatusTooManyRequests
                  then notify (onRateLimited k) EvOnRateLimited
                         (c\<lparr>rateLimited := rateLimited c + 1\<rparr>)
                  else c);
            c2 = c1\<lparr>totalErrors := totalErrors c1 + 1\<rparr>;
            c3 = notify (onError k) (\<lambda>fn. EvOnError fn (StatusCode resp)) c2;
            c4 = reduceRateLimit (clock e) c3;
            lastStatus = (if 0 <s parseRetryAfter P (clock e) (RetryAfter resp)
                          then StatusCode resp else lastStatus)
        in Continue c4 (Some (HTTPRetry (StatusCode resp) (Method req) (URL req))) lastStatus
      else if StatusCode resp \<ge> 400 then
        let c1 = c\<lparr>totalErrors := totalErrors c + 1\<rparr>;
            c2 = (if StatusCode resp = StatusTooManyRequests
                  then c1\<lparr>rateLimited := rateLimited c1 + 1\<rparr> else c1);
            c3 = notify (onError k) (\<lambda>fn. EvOnError fn (StatusCode resp)) c2
        in Return (Some respBody) (StatusCode resp)
             (Some (HTTPStatus (StatusCode resp) respBody)) c3
      else
        Return (Some respBody) (StatusCode resp) None (notify (onSuccess k) EvOnSuccess c))"

text \<open>The round trip of one attempt, from the request hook to the classification.\<close>

definition roundTripOnce ::
  "platform \<Rightarrow> config \<Rightarrow> client \<Rightarrow> request \<Rightarrow> string option \<Rightarrow> attempt_env \<Rightarrow> int \<Rightarrow> int
   \<Rightarrow> step_result" where
  "roundTripOnce P k c1 req bodyBytes e attempt lastStatus =
     (let c2 = notify (requestHook k) EvRequestHook c1;
          c3 = logEvent (EvTransport attempt bodyBytes) c2
      in (case roundTrip e of
            Inl te \<Rightarrow>
              let c4 = c3\<lparr>totalErrors := totalErrors c3 + 1\<rparr>;
                  lastErr = Some (HttpRequest te)
              in if shouldRetry k attempt None (Some te)
                 then Continue c4 lastErr lastStatus
                 else Return None 0 lastErr c4
          | Inr resp \<Rightarrow>
              let c4 = notify (responseHook k) EvResponseHook c3 in
              (case readAllLimited (maxResponseSize k) (Body resp) of
                 Inl re \<Rightarrow>
                   Return None (StatusCode resp) (Some (ReadResponse re))
                     (c4\<lparr>totalErrors := totalErrors c4 + 1\<rparr>)
               | Inr respBody \<Rightarrow> classify P k c4 req e attempt resp respBody)))"

text \<open>One pass through the body of the attempt loop.\<close>

definition attemptOnce ::
  "platform \<Rightarrow> config \<Rightarrow> client \<Rightarrow> request \<Rightarrow> string option \<Rightarrow> attempt_env \<Rightarrow> int
   \<Rightarrow> err option \<Rightarrow> int \<Rightarrow> step_result" where
  "attemptOnce P k c req bodyBytes e attempt lastErr lastStatus =
     (case (if attempt > 0 then beforeRetry P k c e attempt lastStatus else Inr c) of
        Inl r \<Rightarrow> r
      | Inr c1 \<Rightarrow> roundTripOnce P k c1 req bodyBytes e attempt lastStatus)"

text \<open>The attempt loop, \<open>for attempt := 0; attempt <= maxRetries; attempt++\<close>, and the
  return after it.\<close>

function attemptLoop ::
  "platform \<Rightarrow> config \<Rightarrow> request \<Rightarrow> string option \<Rightarrow> (int \<Rightarrow> attempt_env) \<Rightarrow> int \<Rightarrow> client
   \<Rightarrow> err option \<Rightarrow> int \<Rightarrow> outcome \<times> client" where
  "attemptLoop P k req bodyBytes env attempt c lastErr lastStatus =
     (if attempt \<le> maxRetries k then
        (case attemptOnce P k c req bodyBytes (env attempt) attempt lastErr lastStatus of
           Continue c' lastErr' lastStatus' \<Rightarrow>
             attemptLoop P k req bodyBytes env (attempt + 1) c' lastErr' lastStatus'
         | Return b st er c' \<Rightarrow> (Returned b st er, c')
         | Panic c' \<Rightarrow> (Panicked, c'))
      else (Returned None lastStatus (Some (MaxRetriesExceeded (maxRetries k) lastErr)), c))"
  by pat_completeness auto
termination
  by (relation "measure (\<lambda>(P, k, req, bodyBytes, env, attempt, c, lastErr, lastStatus).
                  nat (maxRetries k + 1 - attempt))") auto

definition Do :: "platform \<Rightarrow> do_env \<Rightarrow> request \<Rightarrow> client \<Rightarrow> outcome \<times> client" where
  "Do P env req c =
     (case waitRateLimit c (firstWait env) of
        Some e \<Rightarrow> (Returned None 0 (Some (RateLimitWait e)), c)
      | None \<Rightarrow>
          let c1 = c\<lparr>totalReqs := totalReqs c + 1\<rparr> in
          (case captureBody (reqBody req) of
             Inl e \<Rightarrow> (Returned None 0 (Some (ReadRequestBody e)), c1)
           | Inr bodyBytes \<Rightarrow> attemptLoop P (cfg c1) req bodyBytes (attempts env) 0 c1 None 0))"

text \<open>The client a pass through the loop body leaves behind.\<close>

fun clientOf :: "step_result \<Rightarrow> client" where
  "clientOf (Continue c le ls) = c"
| "clientOf (Return b st er c) = c"
| "clientOf (Panic c) = c"

declare attemptLoop.simps [simp del]

subsection \<open>Operations on a client\<close>

text \<open>The operations on a client and their interleavings as lists. A logical request
  is one step: what other goroutines do between its attempts is not part of a run.\<close>

datatype op =
    OpDo do_env request
  | OpReduce int
  | OpExpire int
  | OpCallback
  | OpSetRateLimit real int
  | OpClose

fun step :: "platform \<Rightarrow> op \<Rightarrow> client \<Rightarrow> client" where
  "step P (OpDo env req) c = snd (Do P env req c)"
| "step P (OpReduce now) c = reduceRateLimit now c"
| "step P (OpExpire now) c = timerExpire now c"
| "step P OpCallback c = timerCallback c"
| "step P (OpSetRateLimit r b) c = SetRateLimit r b c"
| "step P OpClose c = Close c"

fun run :: "platform \<Rightarrow> op list \<Rightarrow> client \<Rightarrow> client" where
  "run P [] c = c"
| "run P (x # xs) c = run P xs (step P x c)"



text \<open>Whether a request gets past the first wait for the limiter, and how many of the
  requests of a run do.\<close>

definition passesFirstWait :: "do_env \<Rightarrow> client \<Rightarrow> bool" where
  "passesFirstWait env c = (waitRateLimit c (firstWait env) = None)"

fun passed :: "platform \<Rightarrow> op list \<Rightarrow> client \<Rightarrow> nat" where
  "passed P [] c = 0"
| "passed P (OpDo env req # xs) c =
     (if passesFirstWait env c then 1 else 0) + passed P xs (step P (OpDo env req) c)"
| "passed P (x # xs) c = passed P xs (step P x c)"

subsection \<open>Counting\<close>

text \<open>The number of round trips a client has made is the number of transport events in
  its log.\<close>

definition isRoundTrip :: "event \<Rightarrow> bool" where
  "isRoundTrip ev = (case ev of EvTransport a b \<Rightarrow> True | _ \<Rightarrow> False)"

definition roundTrips :: "client \<Rightarrow> nat" where
  "roundTrips c = length (filter isRoundTrip (events c))"

text \<open>What one attempt may do to the error counters, and what a run of attempts may:
  \<open>totalErrors\<close> is bumped \<open>e\<close> times and \<open>rateLimited\<close> \<open>r\<close> times with \<open>r \<le> e\<close>, and at
  least \<open>e\<close> round trips were made.\<close>

definition errorStep :: "client \<Rightarrow> client \<Rightarrow> bool" where
  "errorStep c c' =
     ((totalErrors c' = totalErrors c \<and> rateLimited c' = rateLimited c)
      \<or> (totalErrors c' = totalErrors c + 1 \<and> rateLimited c' = rateLimited c)
      \<or> (totalErrors c' = totalErrors c + 1 \<and> rateLimited c' = rateLimited c + 1))"

definition counted :: "client \<Rightarrow> client \<Rightarrow> bool" where
  "counted c c' =
     (\<exists>e r. r \<le> e \<and> roundTrips c + e \<le> roundTrips c'
        \<and> totalErrors c' = totalErrors c + of_nat e
        \<and> rateLimited c' = rateLimited c + of_nat r)"

subsection \<open>Scenarios\<close>

text \<open>The test servers of \<open>client_test.go\<close>: a server that answers every attempt with the
  same response, a context that is cancelled while the first wait for the limiter is
  pending, and a plain GET request.\<close>

definition respond :: "int \<Rightarrow> string \<Rightarrow> response" where
  "respond st b = \<lparr>StatusCode = st, RetryAfter = [], Body = \<lparr>bytes = b, failure = None\<rparr>\<rparr>"

definition serverAlways :: "response \<Rightarrow> do_env" where
  "serverAlways resp =
     \<lparr>firstWait = None,
      attempts = (\<lambda>n. \<lparr>ctxDone = None, waitErr = None, rand = 1 / 2,
                         roundTrip = Inr resp, clock = 0\<rparr>)\<rparr>"

definition cancelledFirstWait :: "do_env \<Rightarrow> do_env" where
  "cancelledFirstWait env = env\<lparr>firstWait := Some (External ''context canceled'')\<rparr>"

definition getRequest :: request where
  "getRequest = \<lparr>Method = ''GET'', URL = ''/'', reqBody = NilBody\<rparr>"

section \<open>Properties\<close>

subsection \<open>Options\<close>

lemma burst_applyOption: "0 < burst c \<Longrightarrow> 0 < burst (applyOption opt c)"
  by (cases opt) (simp_all add: Let_def)

lemma burst_foldl_applyOption:
  "0 < burst c \<Longrightarrow> 0 < burst (foldl (\<lambda>c opt. applyOption opt c) c opts)"
  by (induction opts arbitrary: c) (simp_all add: burst_applyOption)

lemma burst_buildConfig: "0 < burst (buildConfig opts)"
  unfolding buildConfig_def
  by (rule burst_foldl_applyOption) (simp add: defaultConfig_def)

text \<open>
  C10. \<open>WithRateLimit(rps, burst)\<close> always stores \<open>rps\<close>; it stores \<open>burst\<close> only when
  \<open>burst > 0\<close> and otherwise keeps the burst the configuration had (1 when applied to the
  default configuration). Whatever options \<open>New\<close> is given, the configured burst is
  positive, and so is the capacity of the bucket \<open>New\<close> creates.
\<close>

theorem WithRateLimit_burst_positive:
  "rps (applyOption (WithRateLimit r b) c) = r
   \<and> burst (applyOption (WithRateLimit r b) c) = (if b > 0 then b else burst c)
   \<and> burst (applyOption (WithRateLimit r b) defaultConfig) = (if b > 0 then b else 1)
   \<and> 0 < burst (buildConfig opts)
   \<and> (case limiter (New opts) of None \<Rightarrow> True | Some l \<Rightarrow> 0 < bucket l)"
proof -
  have "case limiter (New opts) of None \<Rightarrow> True | Some l \<Rightarrow> 0 < bucket l"
    by (simp add: New_def Let_def NewLimiter_def burst_buildConfig)
  then show ?thesis
    by (simp add: Let_def burst_buildConfig defaultConfig_def)
qed

subsection \<open>Retry decision\<close>

text \<open>
  C1. For every attempt index, optional response and optional error, \<open>shouldRetry\<close> is the
  five-step decision of the specification: false when \<open>attempt \<ge> maxRetries\<close>; else the
  custom predicate's result when one is configured; else true on a transport error; else
  membership of the response status in the retryable set; else false.
\<close>

theorem shouldRetry_refines_spec:
  "shouldRetry c attempt resp e = shouldRetry_spec c attempt resp e"
  by (auto simp: shouldRetry_def shouldRetry_spec_def retryableStatusSet_def lookupStatus_def
           split: option.splits)

subsection \<open>Backoff\<close>

lemma sint_word_of_int64:
  "- (2 ^ 63) \<le> k \<Longrightarrow> k < 2 ^ 63 \<Longrightarrow> sint (word_of_int k :: 64 word) = k"
  by (simp add: sint_sbintrunc' signed_take_bit_int_eq_self)







subsection \<open>Adaptive throttling\<close>

lemma reduce_enabled:
  assumes "limiter c = Some l" "\<not> closedFlag c"
  shows "effectiveRate (reduceRateLimit now c) = Some (max (originalRate c / 2) 0.01)"
    and "adaptiveTimer (reduceRateLimit now c) = Some (Pending (now + sint (adaptiveCooldown (cfg c))))"
    and "originalRate (reduceRateLimit now c) = originalRate c"
    and "cfg (reduceRateLimit now c) = cfg c"
    and "\<not> closedFlag (reduceRateLimit now c)"
    and "\<exists>l'. limiter (reduceRateLimit now c) = Some l'"
  using assms
  by (auto simp: reduceRateLimit_def effectiveRate_def SetLimit_def Let_def max_def)

lemma reduce_disabled:
  "limiter c = None \<or> closedFlag c \<Longrightarrow> reduceRateLimit now c = c"
  by (auto simp: reduceRateLimit_def split: option.splits)

lemma reduceAll_enabled:
  assumes "limiter c = Some l" "\<not> closedFlag c" "ts \<noteq> []"
  shows "effectiveRate (reduceAll ts c) = Some (max (originalRate c / 2) 0.01)
       \<and> adaptiveTimer (reduceAll ts c) = Some (Pending (last ts + sint (adaptiveCooldown (cfg c))))
       \<and> originalRate (reduceAll ts c) = originalRate c
       \<and> cfg (reduceAll ts c) = cfg c
       \<and> \<not> closedFlag (reduceAll ts c)
       \<and> (\<exists>l'. limiter (reduceAll ts c) = Some l')"
  using assms(3,1,2)
proof (induction ts arbitrary: c l rule: rev_nonempty_induct)
  case (single t)
  then show ?case using reduce_enabled [of c l t] by (simp add: reduceAll_def)
next
  case (snoc t ts)
  from snoc.IH [OF snoc.prems] obtain l' where
    l': "limiter (reduceAll ts c) = Some l'" and nc: "\<not> closedFlag (reduceAll ts c)"
    and o: "originalRate (reduceAll ts c) = originalRate c"
    and g: "cfg (reduceAll ts c) = cfg c" by blast
  have r: "reduceAll (ts @ [t]) c = reduceRateLimit t (reduceAll ts c)"
    by (simp add: reduceAll_def)
  show ?case
    unfolding r using reduce_enabled [OF l' nc, of t] by (simp add: o g)
qed

lemma restore_open:
  assumes "limiter c = Some l" "\<not> closedFlag c"
  shows "effectiveRate (restoreCallback c) = Some (originalRate c)"
  using assms by (simp add: restoreCallback_def effectiveRate_def SetLimit_def)


lemma restore_closed: "closedFlag c \<Longrightarrow> restoreCallback c = c"
  by (simp add: restoreCallback_def split: option.splits)

lemma fire_after_deadline:
  assumes "adaptiveTimer c = Some (Pending d)" "d \<le> t" "limiter c = Some l" "\<not> closedFlag c"
  shows "effectiveRate (timerCallback (timerExpire t c)) = Some (originalRate c)"
  using assms
  by (simp add: timerExpire_def timerCallback_def restoreCallback_def effectiveRate_def SetLimit_def)

text \<open>
  C4. On a client with pacing enabled (a limiter is present) and not closed, after any
  non-empty run of retryable observations the effective rate is
  \<open>max (originalRate / 2) 0.01\<close>: the first reduction sets it and every further one keeps
  it there, at half of \<open>originalRate\<close> whenever that is at least the floor (never a
  quarter); the restore timer is armed for the full cooldown counted from the last
  observation; when that timer fires, the client still not closed, the effective rate is
  \<open>originalRate\<close> again. With pacing disabled or the client closed nothing is adjusted, and
  the restore callback leaves a closed client as it is.
\<close>

theorem reduceRateLimit_adaptive:
  "(limiter c \<noteq> None \<and> \<not> closedFlag c \<and> ts \<noteq> [] \<longrightarrow>
      effectiveRate (reduceAll ts c) = Some (max (originalRate c / 2) 0.01)
      \<and> (0.02 \<le> originalRate c \<longrightarrow> effectiveRate (reduceAll ts c) = Some (originalRate c / 2))
      \<and> adaptiveTimer (reduceAll ts c)
          = Some (Pending (last ts + sint (adaptiveCooldown (cfg c))))
      \<and> (last ts + sint (adaptiveCooldown (cfg c)) \<le> t \<longrightarrow>
           effectiveRate (timerCallback (timerExpire t (reduceAll ts c))) = Some (originalRate c)))
   \<and> (limiter c = None \<or> closedFlag c \<longrightarrow> reduceAll ts c = c)
   \<and> (closedFlag c \<longrightarrow> restoreCallback c = c)"
proof (intro conjI impI)
  assume a: "limiter c \<noteq> None \<and> \<not> closedFlag c \<and> ts \<noteq> []"
  then obtain l where l: "limiter c = Some l" by auto
  note ra = reduceAll_enabled [OF l, of ts]
  from a ra show r: "effectiveRate (reduceAll ts c) = Some (max (originalRate c / 2) 0.01)"
    by blast
  from a ra show tm: "adaptiveTimer (reduceAll ts c)
      = Some (Pending (last ts + sint (adaptiveCooldown (cfg c))))" by blast
  show "effectiveRate (reduceAll ts c) = Some (originalRate c / 2)" if "0.02 \<le> originalRate c"
    using r that by (simp add: max_def)
  show "effectiveRate (timerCallback (timerExpire t (reduceAll ts c))) = Some (originalRate c)"
    if "last ts + sint (adaptiveCooldown (cfg c)) \<le> t"
  proof -
    from a ra obtain l' where l': "limiter (reduceAll ts c) = Some l'"
      and nc: "\<not> closedFlag (reduceAll ts c)"
      and o: "originalRate (reduceAll ts c) = originalRate c" by blast
    show ?thesis using fire_after_deadline [OF tm that l' nc] by (simp add: o)
  qed
next
  assume d: "limiter c = None \<or> closedFlag c"
  show "reduceAll ts c = c"
    unfolding reduceAll_def
    by (induction ts) (simp_all add: reduce_disabled [OF d])
next
  assume "closedFlag c" then show "restoreCallback c = c" by (rule restore_closed)
qed

theorem reduceRateLimit_adaptive_witness:
  "limiter (New [WithRateLimit 100 10, WithAdaptive (500 * Millisecond)]) \<noteq> None
   \<and> \<not> closedFlag (New [WithRateLimit 100 10, WithAdaptive (500 * Millisecond)])
   \<and> [0, 7] \<noteq> ([] :: int list)
   \<and> effectiveRate (reduceAll [0, 7] (New [WithRateLimit 100 10, WithAdaptive (500 * Millisecond)]))
        = Some 50
   \<and> adaptiveTimer (reduceAll [0, 7] (New [WithRateLimit 100 10, WithAdaptive (500 * Millisecond)]))
        = Some (Pending 500000007)
   \<and> effectiveRate (timerCallback (timerExpire 500000007
        (reduceAll [0, 7] (New [WithRateLimit 100 10, WithAdaptive (500 * Millisecond)]))))
        = Some 100
   \<and> closedFlag (Close (New [WithRateLimit 100 10]))
   \<and> reduceAll [0, 7] (Close (New [WithRateLimit 100 10])) = Close (New [WithRateLimit 100 10])
   \<and> restoreCallback (Close (New [WithRateLimit 100 10])) = Close (New [WithRateLimit 100 10])"
  using reduceRateLimit_adaptive
          [of "New [WithRateLimit 100 10, WithAdaptive (500 * Millisecond)]" "[0, 7]" 500000007]
        reduceRateLimit_adaptive [of "Close (New [WithRateLimit 100 10])" "[0, 7]" 0]
  by (simp add: New_def buildConfig_def defaultConfig_def NewLimiter_def Close_def
        Millisecond_def Second_def Minute_def Let_def)

subsection \<open>Executing a request\<close>

text \<open>What logging, callbacks and a reduction leave unchanged.\<close>

lemma logEvent_fields [simp]:
  "totalReqs (logEvent ev c) = totalReqs c"
  "totalErrors (logEvent ev c) = totalErrors c"
  "rateLimited (logEvent ev c) = rateLimited c"
  "cfg (logEvent ev c) = cfg c"
  "limiter (logEvent ev c) = limiter c"
  "originalRate (logEvent ev c) = originalRate c"
  "adaptiveTimer (logEvent ev c) = adaptiveTimer c"
  "closedFlag (logEvent ev c) = closedFlag c"
  "inflight (logEvent ev c) = inflight c"
  by (simp_all add: logEvent_def)

lemma notify_fields [simp]:
  "totalReqs (notify slot ev c) = totalReqs c"
  "totalErrors (notify slot ev c) = totalErrors c"
  "rateLimited (notify slot ev c) = rateLimited c"
  "cfg (notify slot ev c) = cfg c"
  "limiter (notify slot ev c) = limiter c"
  "originalRate (notify slot ev c) = originalRate c"
  "adaptiveTimer (notify slot ev c) = adaptiveTimer c"
  "closedFlag (notify slot ev c) = closedFlag c"
  "inflight (notify slot ev c) = inflight c"
  by (simp_all add: notify_def split: option.splits)

lemma reduceRateLimit_fields [simp]:
  "totalReqs (reduceRateLimit now c) = totalReqs c"
  "totalErrors (reduceRateLimit now c) = totalErrors c"
  "rateLimited (reduceRateLimit now c) = rateLimited c"
  "cfg (reduceRateLimit now c) = cfg c"
  "originalRate (reduceRateLimit now c) = originalRate c"
  "closedFlag (reduceRateLimit now c) = closedFlag c"
  "inflight (reduceRateLimit now c) = inflight c"
  "events (reduceRateLimit now c) = events c"
  by (simp_all add: reduceRateLimit_def Let_def split: option.splits)


lemma attemptOnce_preserves:
  assumes lg: "\<And>ev c. Q c \<Longrightarrow> Q (logEvent ev c)"
      and te: "\<And>c v. Q c \<Longrightarrow> Q (c\<lparr>totalErrors := v\<rparr>)"
      and rl: "\<And>c v. Q c \<Longrightarrow> Q (c\<lparr>rateLimited := v\<rparr>)"
      and rd: "\<And>now c. Q c \<Longrightarrow> Q (reduceRateLimit now c)"
      and q: "Q c"
  shows "Q (clientOf (attemptOnce P k c req bb e a le ls))"
proof -
  have nt: "Q (notify slot ev c)" if "Q c" for slot ev c
    using that lg by (cases slot) (simp_all add: notify_def)
  have br: "(case beforeRetry P k c e a ls of Inl r \<Rightarrow> Q (clientOf r) | Inr c1 \<Rightarrow> Q c1)"
    using q lg by (simp add: beforeRetry_def Let_def split: option.splits)
  have cl: "Q (clientOf (classify P k c req e a resp rb))" if "Q c" for c resp rb
    using that by (simp add: classify_def Let_def nt te rl rd)
  have body: "Q (clientOf (roundTripOnce P k c1 req bb e a ls))" if "Q c1" for c1
    using that by (simp add: roundTripOnce_def Let_def nt lg te cl split: sum.splits)
  show ?thesis
  proof (cases "0 < a")
    case False
    then show ?thesis using body [OF q] by (simp add: attemptOnce_def)
  next
    case True
    show ?thesis
    proof (cases "beforeRetry P k c e a ls")
      case (Inl r)
      then show ?thesis using True br by (simp add: attemptOnce_def)
    next
      case (Inr c1)
      then have "Q c1" using br by simp
      then show ?thesis using True Inr body [of c1] by (simp add: attemptOnce_def)
    qed
  qed
qed

lemma attemptLoop_preserves:
  "(\<And>c e a le ls. Q c \<Longrightarrow> Q (clientOf (attemptOnce P k c req bb e a le ls))) \<Longrightarrow>
   Q c \<Longrightarrow> Q (snd (attemptLoop P k req bb env a c le ls))"
proof (induction P k req bb env a c le ls rule: attemptLoop.induct)
  case (1 P k req bb env a c le ls)
  show ?case
  proof (cases "a \<le> maxRetries k")
    case False
    then show ?thesis using "1.prems"(2) by (simp add: attemptLoop.simps [of P k req bb env a])
  next
    case True
    have q: "Q (clientOf (attemptOnce P k c req bb (env a) a le ls))"
      using "1.prems"(2) by (rule "1.prems"(1))
    show ?thesis
    proof (cases "attemptOnce P k c req bb (env a) a le ls")
      case (Continue c' le' ls')
      have "Q c'" using q Continue by simp
      then have "Q (snd (attemptLoop P k req bb env (a + 1) c' le' ls'))"
        using "1.IH" [OF True Continue] "1.prems"(1) by blast
      then show ?thesis
        using True Continue by (simp add: attemptLoop.simps [of P k req bb env a])
    next
      case (Return b st er c')
      then show ?thesis using True q by (simp add: attemptLoop.simps [of P k req bb env a])
    next
      case (Panic c')
      then show ?thesis using True q by (simp add: attemptLoop.simps [of P k req bb env a])
    qed
  qed
qed


lemma adaptive_ops_counters [simp]:
  "totalReqs (timerExpire now c) = totalReqs c"
  "totalErrors (timerExpire now c) = totalErrors c"
  "rateLimited (timerExpire now c) = rateLimited c"
  "cfg (timerExpire now c) = cfg c"
  "totalReqs (timerCallback c) = totalReqs c"
  "totalErrors (timerCallback c) = totalErrors c"
  "rateLimited (timerCallback c) = rateLimited c"
  "cfg (timerCallback c) = cfg c"
  "totalReqs (SetRateLimit r b c) = totalReqs c"
  "totalErrors (SetRateLimit r b c) = totalErrors c"
  "rateLimited (SetRateLimit r b c) = rateLimited c"
  "cfg (SetRateLimit r b c) = cfg c"
  "totalReqs (Close c) = totalReqs c"
  "totalErrors (Close c) = totalErrors c"
  "rateLimited (Close c) = rateLimited c"
  "cfg (Close c) = cfg c"
  by (simp_all add: timerExpire_def timerCallback_def restoreCallback_def SetRateLimit_def
        Close_def Let_def split: option.splits timer.splits)

lemma attemptLoop_totalReqs:
  "totalReqs (snd (attemptLoop P k req bb env a c le ls)) = totalReqs c"
proof -
  define v where "v = totalReqs c"
  have "totalReqs (snd (attemptLoop P k req bb env a c le ls)) = v"
  proof (rule attemptLoop_preserves [where Q = "\<lambda>c. totalReqs c = v"])
    show "totalReqs (clientOf (attemptOnce P k c req bb e a le ls)) = v"
      if "totalReqs c = v" for c e a le ls
      using that by (intro attemptOnce_preserves [where Q = "\<lambda>c. totalReqs c = v"]) simp_all
    show "totalReqs c = v" by (simp add: v_def)
  qed
  then show ?thesis by (simp add: v_def)
qed

lemma Do_totalReqs:
  "totalReqs (snd (Do P env req c)) = totalReqs c + (if passesFirstWait env c then 1 else 0)"
  by (simp add: Do_def passesFirstWait_def Let_def attemptLoop_totalReqs
      split: option.splits sum.splits)

lemma Do_blocked:
  assumes "\<not> passesFirstWait env c"
  shows "\<exists>e. firstWait env = Some e
           \<and> Do P env req c = (Returned None 0 (Some (RateLimitWait e)), c)"
  using assms
  by (auto simp: Do_def passesFirstWait_def waitRateLimit_def split: if_splits)

lemma step_totalReqs:
  "totalReqs (step P x c) = totalReqs c + of_nat (passed P [x] c)"
  by (cases x) (simp_all add: Do_totalReqs)

lemma run_totalReqs:
  "totalReqs (run P xs c) = totalReqs c + of_nat (passed P xs c)"
proof (induction xs arbitrary: c)
  case Nil
  then show ?case by simp
next
  case (Cons x xs)
  show ?case
    by (cases x) (simp_all add: Cons.IH Do_totalReqs)
qed

text \<open>
  C7. A call of \<open>Do\<close> whose first wait for the limiter fails (the context is cancelled
  while it waits) returns a nil body, status 0 and the wrapped error of the wait, and
  leaves the client, its counters included, as it was; a call that gets past the first
  wait adds exactly one to \<open>totalReqs\<close>, whatever happens afterwards. So after any run of
  operations on a new client \<open>totalReqs\<close> is the number of calls of \<open>Do\<close> that got past the
  first wait (as a 64-bit counter).
\<close>

theorem Do_counts_request:
  "(\<not> passesFirstWait env c \<longrightarrow>
      (\<exists>e. firstWait env = Some e
          \<and> Do P env req c = (Returned None 0 (Some (RateLimitWait e)), c)))
   \<and> totalReqs (snd (Do P env req c)) = totalReqs c + (if passesFirstWait env c then 1 else 0)
   \<and> totalReqs (run P xs (New opts)) = of_nat (passed P xs (New opts))"
proof -
  have "totalReqs (New opts) = 0" by (simp add: New_def Let_def)
  then show ?thesis
    using Do_blocked [of env c P req] Do_totalReqs [of P env req c]
          run_totalReqs [of P xs "New opts"]
    by simp
qed

theorem Do_counts_request_witness:
  "\<not> passesFirstWait (cancelledFirstWait (serverAlways (respond 200 ''ok'')))
        (New [WithRateLimit 10 1])
   \<and> Do amd64 (cancelledFirstWait (serverAlways (respond 200 ''ok''))) getRequest
        (New [WithRateLimit 10 1])
      = (Returned None 0 (Some (RateLimitWait (External ''context canceled''))),
         New [WithRateLimit 10 1])
   \<and> totalReqs (run amd64
        [OpDo (cancelledFirstWait (serverAlways (respond 200 ''ok''))) getRequest,
         OpDo (serverAlways (respond 200 ''ok'')) getRequest]
        (New [WithRateLimit 10 1])) = 1"
  using Do_counts_request
          [of "cancelledFirstWait (serverAlways (respond 200 ''ok''))" "New [WithRateLimit 10 1]"
              amd64 getRequest
              "[OpDo (cancelledFirstWait (serverAlways (respond 200 ''ok''))) getRequest,
                OpDo (serverAlways (respond 200 ''ok'')) getRequest]"
              "[WithRateLimit 10 1]"]
  by (simp add: passesFirstWait_def waitRateLimit_def cancelledFirstWait_def serverAlways_def
        Do_def New_def buildConfig_def defaultConfig_def NewLimiter_def Let_def)

lemma counted_same:
  "totalErrors c' = totalErrors c \<Longrightarrow> rateLimited c' = rateLimited c \<Longrightarrow>
   roundTrips c \<le> roundTrips c' \<Longrightarrow> counted c c'"
  unfolding counted_def by (rule exI [of _ 0], rule exI [of _ 0]) simp

lemma counted_trans:
  assumes "counted a b" "counted b c"
  shows "counted a c"
proof -
  from assms(1) obtain e1 r1 where one: "r1 \<le> e1" "roundTrips a + e1 \<le> roundTrips b"
    "totalErrors b = totalErrors a + of_nat e1" "rateLimited b = rateLimited a + of_nat r1"
    unfolding counted_def by blast
  from assms(2) obtain e2 r2 where two: "r2 \<le> e2" "roundTrips b + e2 \<le> roundTrips c"
    "totalErrors c = totalErrors b + of_nat e2" "rateLimited c = rateLimited b + of_nat r2"
    unfolding counted_def by blast
  show ?thesis
    unfolding counted_def
  proof (rule exI [of _ "e1 + e2"], rule exI [of _ "r1 + r2"], intro conjI)
    show "r1 + r2 \<le> e1 + e2" using one(1) two(1) by simp
    show "roundTrips a + (e1 + e2) \<le> roundTrips c" using one(2) two(2) by simp
    show "totalErrors c = totalErrors a + of_nat (e1 + e2)" using one(3) two(3) by simp
    show "rateLimited c = rateLimited a + of_nat (r1 + r2)" using one(4) two(4) by simp
  qed
qed

lemma counted_errorStep:
  assumes "errorStep c c'" "roundTrips c' = roundTrips c + 1"
  shows "counted c c'"
proof -
  from assms(1) consider
      "totalErrors c' = totalErrors c \<and> rateLimited c' = rateLimited c"
    | "totalErrors c' = totalErrors c + 1 \<and> rateLimited c' = rateLimited c"
    | "totalErrors c' = totalErrors c + 1 \<and> rateLimited c' = rateLimited c + 1"
    unfolding errorStep_def by blast
  then show ?thesis
  proof cases
    case 1
    then show ?thesis unfolding counted_def
      by (intro exI [of _ 0]) (simp add: assms(2))
  next
    case 2
    show ?thesis unfolding counted_def
      by (rule exI [of _ 1], rule exI [of _ 0]) (use 2 assms(2) in simp)
  next
    case 3
    show ?thesis unfolding counted_def
      by (rule exI [of _ 1], rule exI [of _ 1]) (use 3 assms(2) in simp)
  qed
qed

lemma roundTrips_simps [simp]:
  "roundTrips (logEvent ev c) = roundTrips c + (if isRoundTrip ev then 1 else 0)"
  "roundTrips (reduceRateLimit now c) = roundTrips c"
  "roundTrips (c\<lparr>totalErrors := v\<rparr>) = roundTrips c"
  "roundTrips (c\<lparr>rateLimited := v\<rparr>) = roundTrips c"
  "roundTrips (c\<lparr>totalReqs := v\<rparr>) = roundTrips c"
  by (simp_all add: roundTrips_def logEvent_def)

lemma roundTrips_notify [simp]:
  "(\<And>fn. \<not> isRoundTrip (ev fn)) \<Longrightarrow> roundTrips (notify slot ev c) = roundTrips c"
  by (cases slot) (simp_all add: notify_def)

lemma isRoundTrip_simps [simp]:
  "isRoundTrip (EvTransport a b)"
  "\<not> isRoundTrip (EvRequestHook f)"
  "\<not> isRoundTrip (EvResponseHook f)"
  "\<not> isRoundTrip (EvOnRateLimited f)"
  "\<not> isRoundTrip (EvOnError f n)"
  "\<not> isRoundTrip (EvOnSuccess f)"
  "\<not> isRoundTrip (EvSleep d)"
  by (simp_all add: isRoundTrip_def)

lemma classify_errorStep:
  "errorStep c (clientOf (classify P k c req e a resp rb))
   \<and> roundTrips (clientOf (classify P k c req e a resp rb)) = roundTrips c"
proof (cases "shouldRetry k a (Some resp) None")
  case True
  then show ?thesis by (simp add: classify_def Let_def errorStep_def)
next
  case False
  then show ?thesis by (simp add: classify_def Let_def errorStep_def)
qed

lemma beforeRetry_counters:
  "beforeRetry P k c e a ls = Inr c1 \<Longrightarrow>
     totalErrors c1 = totalErrors c \<and> rateLimited c1 = rateLimited c
     \<and> roundTrips c1 = roundTrips c"
  "beforeRetry P k c e a ls = Inl r \<Longrightarrow>
     totalErrors (clientOf r) = totalErrors c \<and> rateLimited (clientOf r) = rateLimited c
     \<and> roundTrips (clientOf r) = roundTrips c"
  by (auto simp: beforeRetry_def Let_def split: option.splits)

lemma errorStep_cong:
  "totalErrors c1 = totalErrors c \<Longrightarrow> rateLimited c1 = rateLimited c \<Longrightarrow>
   errorStep c1 c' \<Longrightarrow> errorStep c c'"
  by (simp add: errorStep_def)

lemma roundTripOnce_counted: "counted c1 (clientOf (roundTripOnce P k c1 req bb e a ls))"
proof (rule counted_errorStep)
  let ?c3 = "logEvent (EvTransport a bb) (notify (requestHook k) EvRequestHook c1)"
  let ?c4 = "notify (responseHook k) EvResponseHook ?c3"
  have r4: "roundTrips ?c4 = roundTrips c1 + 1" by simp
  have cl: "errorStep c1 (clientOf (classify P k ?c4 req e a resp rb))
            \<and> roundTrips (clientOf (classify P k ?c4 req e a resp rb)) = roundTrips c1 + 1"
    for resp rb
  proof -
    from classify_errorStep [of ?c4 P k req e a resp rb]
    have "errorStep ?c4 (clientOf (classify P k ?c4 req e a resp rb))"
      and "roundTrips (clientOf (classify P k ?c4 req e a resp rb)) = roundTrips ?c4"
      by blast+
    then show ?thesis
      using r4 errorStep_cong [of ?c4 c1 "clientOf (classify P k ?c4 req e a resp rb)"]
      by simp
  qed
  show "errorStep c1 (clientOf (roundTripOnce P k c1 req bb e a ls))"
    using cl by (simp add: roundTripOnce_def Let_def errorStep_def split: sum.splits)
  show "roundTrips (clientOf (roundTripOnce P k c1 req bb e a ls)) = roundTrips c1 + 1"
    using cl by (simp add: roundTripOnce_def Let_def split: sum.splits)
qed

lemma attemptOnce_counted: "counted c (clientOf (attemptOnce P k c req bb e a le ls))"
proof (cases "0 < a")
  case False
  then show ?thesis using roundTripOnce_counted [of c] by (simp add: attemptOnce_def)
next
  case True
  show ?thesis
  proof (cases "beforeRetry P k c e a ls")
    case (Inl r)
    have "counted c (clientOf r)"
      using beforeRetry_counters(2) [OF Inl] by (intro counted_same) simp_all
    then show ?thesis using True Inl by (simp add: attemptOnce_def)
  next
    case (Inr c1)
    have "counted c c1"
      using beforeRetry_counters(1) [OF Inr] by (intro counted_same) simp_all
    then have "counted c (clientOf (roundTripOnce P k c1 req bb e a ls))"
      using roundTripOnce_counted [of c1] by (rule counted_trans)
    then show ?thesis using True Inr by (simp add: attemptOnce_def)
  qed
qed

lemma attemptLoop_counted: "counted c (snd (attemptLoop P k req bb env a c le ls))"
proof (induction P k req bb env a c le ls rule: attemptLoop.induct)
  case (1 P k req bb env a c le ls)
  show ?case
  proof (cases "a \<le> maxRetries k")
    case False
    then have "snd (attemptLoop P k req bb env a c le ls) = c"
      by (simp add: attemptLoop.simps [of P k req bb env a])
    then show ?thesis by (simp add: counted_same)
  next
    case True
    let ?r = "attemptOnce P k c req bb (env a) a le ls"
    have one: "counted c (clientOf ?r)" by (rule attemptOnce_counted)
    show ?thesis
    proof (cases ?r)
      case (Continue c' le' ls')
      have eq: "attemptLoop P k req bb env a c le ls
                  = attemptLoop P k req bb env (a + 1) c' le' ls'"
        using True Continue by (simp add: attemptLoop.simps [of P k req bb env a])
      have "counted c c'" using one Continue by simp
      then show ?thesis
        unfolding eq using "1.IH" [OF True Continue] by (rule counted_trans)
    next
      case (Return b st er c')
      then show ?thesis
        using True one by (simp add: attemptLoop.simps [of P k req bb env a])
    next
      case (Panic c')
      then show ?thesis
        using True one by (simp add: attemptLoop.simps [of P k req bb env a])
    qed
  qed
qed

lemma Do_counted: "counted c (snd (Do P env req c))"
proof (cases "waitRateLimit c (firstWait env)")
  case (Some e)
  then show ?thesis by (simp add: Do_def counted_same)
next
  case None
  let ?c1 = "c\<lparr>totalReqs := totalReqs c + 1\<rparr>"
  have c1: "counted c ?c1" by (simp add: counted_same)
  show ?thesis
  proof (cases "captureBody (reqBody req)")
    case (Inl e)
    then show ?thesis using None c1 by (simp add: Do_def Let_def)
  next
    case (Inr bb)
    have eq: "Do P env req c = attemptLoop P (cfg c) req bb (attempts env) 0 ?c1 None 0"
      using None Inr by (simp add: Do_def Let_def)
    show ?thesis
      unfolding eq using c1 attemptLoop_counted by (rule counted_trans)
  qed
qed

lemma adaptive_ops_events [simp]:
  "events (timerExpire now c) = events c"
  "events (timerCallback c) = events c"
  "events (SetRateLimit r b c) = events c"
  "events (Close c) = events c"
  by (simp_all add: timerExpire_def timerCallback_def restoreCallback_def SetRateLimit_def
        Close_def Let_def split: option.splits timer.splits)

lemma step_counted: "counted c (step P x c)"
  by (cases x) (simp_all add: Do_counted counted_same roundTrips_def)

lemma run_counted: "counted c (run P xs c)"
proof (induction xs arbitrary: c)
  case Nil
  show ?case by (simp add: counted_same)
next
  case (Cons x xs)
  have "counted c (step P x c)" by (rule step_counted)
  then show ?case using Cons.IH [of "step P x c"] by (simp add: counted_trans)
qed

text \<open>
  C8. After every run of operations on a new client the two counters are the 64-bit
  values of two numbers \<open>r \<le> e\<close>, \<open>e\<close> at most the number of round trips made: every
  attempt that adds to \<open>rateLimited\<close> (a retried 429, a terminal 429) adds to
  \<open>totalErrors\<close> as well. So \<open>rateLimited \<le> totalErrors\<close> as long as fewer than \<open>2^64\<close>
  round trips have been made, that is until \<open>totalErrors\<close> could have wrapped.
\<close>

theorem rateLimited_le_totalErrors:
  "(\<exists>e r. r \<le> e \<and> e \<le> roundTrips (run P xs (New opts))
        \<and> totalErrors (run P xs (New opts)) = of_nat e
        \<and> rateLimited (run P xs (New opts)) = of_nat r)
   \<and> (roundTrips (run P xs (New opts)) < 2 ^ 64 \<longrightarrow>
        rateLimited (run P xs (New opts)) \<le> totalErrors (run P xs (New opts)))"
proof -
  let ?s = "run P xs (New opts)"
  have z: "totalErrors (New opts) = 0" "rateLimited (New opts) = 0" "roundTrips (New opts) = 0"
    by (simp_all add: New_def Let_def roundTrips_def)
  from run_counted [of "New opts" P xs] obtain e r where er: "r \<le> e" "e \<le> roundTrips ?s"
      "totalErrors ?s = of_nat e" "rateLimited ?s = of_nat r"
    unfolding counted_def z by auto
  have ord: "rateLimited ?s \<le> totalErrors ?s" if "roundTrips ?s < 2 ^ 64"
  proof -
    have e64: "e < 2 ^ 64" using er(2) that by simp
    have r64: "r < 2 ^ 64" using er(1) e64 by simp
    have "unat (of_nat r :: 64 word) = r"
      using r64 by (simp add: unat_of_nat take_bit_nat_eq_self)
    moreover have "unat (of_nat e :: 64 word) = e"
      using e64 by (simp add: unat_of_nat take_bit_nat_eq_self)
    ultimately show ?thesis
      unfolding er(3) er(4) using er(1) by (simp add: word_le_nat_alt)
  qed
  show ?thesis using er ord by blast
qed

text \<open>The definitions a concrete call of \<open>Do\<close> is evaluated with.\<close>

lemmas eval_defs = Do_def attemptLoop.simps attemptOnce_def roundTripOnce_def beforeRetry_def
  classify_def notify_def logEvent_def waitRateLimit_def captureBody_def readAll_def
  readAllLimited_def shouldRetry_def lookupStatus_def reduceRateLimit_def
  backoffDuration_def backoffBase_def jittered_def toDuration_def
  parseRetryAfter_def New_def buildConfig_def defaultConfig_def NewLimiter_def
  respond_def serverAlways_def getRequest_def amd64_def indefinite_def
  StatusTooManyRequests_def StatusServiceUnavailable_def Second_def Minute_def Millisecond_def
  Let_def word_sless_alt

theorem rateLimited_le_totalErrors_witness:
  "roundTrips (run amd64
      [OpDo (serverAlways (respond 429 [])) getRequest,
       OpDo (serverAlways (respond 500 [])) getRequest]
      (New [WithRetry 0 (10 * Millisecond)])) < 2 ^ 64
   \<and> rateLimited (run amd64
      [OpDo (serverAlways (respond 429 [])) getRequest,
       OpDo (serverAlways (respond 500 [])) getRequest]
      (New [WithRetry 0 (10 * Millisecond)])) = 1
   \<and> totalErrors (run amd64
      [OpDo (serverAlways (respond 429 [])) getRequest,
       OpDo (serverAlways (respond 500 [])) getRequest]
      (New [WithRetry 0 (10 * Millisecond)])) = 2
   \<and> rateLimited (run amd64
      [OpDo (serverAlways (respond 429 [])) getRequest,
       OpDo (serverAlways (respond 500 [])) getRequest]
      (New [WithRetry 0 (10 * Millisecond)]))
     \<le> totalErrors (run amd64
      [OpDo (serverAlways (respond 429 [])) getRequest,
       OpDo (serverAlways (respond 500 [])) getRequest]
      (New [WithRetry 0 (10 * Millisecond)]))"
  using rateLimited_le_totalErrors
          [of amd64 "[OpDo (serverAlways (respond 429 [])) getRequest,
                      OpDo (serverAlways (respond 500 [])) getRequest]"
              "[WithRetry 0 (10 * Millisecond)]"]
  by (simp add: eval_defs roundTrips_def isRoundTrip_def)

subsection \<open>The restore timer\<close>

lemma armed_frame [simp]:
  "armed (logEvent ev c) = armed c"
  "armed (c\<lparr>totalErrors := v\<rparr>) = armed c"
  "armed (c\<lparr>rateLimited := v\<rparr>) = armed c"
  "armed (c\<lparr>totalReqs := v\<rparr>) = armed c"
  by (simp_all add: armed_def)

lemma rateBelowOriginal_frame [simp]:
  "rateBelowOriginal (logEvent ev c) = rateBelowOriginal c"
  "rateBelowOriginal (c\<lparr>totalErrors := v\<rparr>) = rateBelowOriginal c"
  "rateBelowOriginal (c\<lparr>rateLimited := v\<rparr>) = rateBelowOriginal c"
  "rateBelowOriginal (c\<lparr>totalReqs := v\<rparr>) = rateBelowOriginal c"
  by (simp_all add: rateBelowOriginal_def split: option.splits)






subsection \<open>The last attempt\<close>

text \<open>At attempt \<open>maxRetries\<close> and beyond \<open>shouldRetry\<close> is false, so the last pass through the
  loop body never continues: it returns.\<close>

lemma shouldRetry_last_attempt: "maxRetries k \<le> a \<Longrightarrow> \<not> shouldRetry k a resp e"
  by (simp add: shouldRetry_def)

lemma classify_last_attempt:
  assumes "maxRetries k \<le> a"
  shows "classify P k c req e a resp rb =
           (if StatusCode resp \<ge> 400 then
              Return (Some rb) (StatusCode resp) (Some (HTTPStatus (StatusCode resp) rb))
                (notify (onError k) (\<lambda>fn. EvOnError fn (StatusCode resp))
                   (let c1 = c\<lparr>totalErrors := totalErrors c + 1\<rparr>
                    in if StatusCode resp = StatusTooManyRequests
                       then c1\<lparr>rateLimited := rateLimited c1 + 1\<rparr> else c1))
            else Return (Some rb) (StatusCode resp) None (notify (onSuccess k) EvOnSuccess c))"
  using shouldRetry_last_attempt [OF assms] by (simp add: classify_def Let_def)

lemma roundTripOnce_last_attempt:
  "maxRetries k \<le> a \<Longrightarrow> roundTripOnce P k c req bb e a ls \<noteq> Continue c' le' ls'"
  by (simp add: roundTripOnce_def Let_def classify_last_attempt shouldRetry_last_attempt
      split: sum.splits)

lemma attemptOnce_last_attempt:
  "maxRetries k \<le> a \<Longrightarrow> attemptOnce P k c req bb e a le ls \<noteq> Continue c' le' ls'"
  by (auto simp: attemptOnce_def beforeRetry_def Let_def roundTripOnce_last_attempt
      split: sum.splits option.splits if_splits)

text \<open>So a loop that is entered returns from inside an attempt, never from the statement
  after the loop.\<close>

lemma attemptLoop_returns_in_loop:
  "a \<le> maxRetries k \<Longrightarrow>
   \<exists>a' c1 le1 ls1. a \<le> a' \<and> a' \<le> maxRetries k
     \<and> (case attemptOnce P k c1 req bb (env a') a' le1 ls1 of
           Continue c' le' ls' \<Rightarrow> False
         | Return b st er c' \<Rightarrow>
             attemptLoop P k req bb env a c le ls = (Returned b st er, c')
         | Panic c' \<Rightarrow> attemptLoop P k req bb env a c le ls = (Panicked, c'))"
proof (induction P k req bb env a c le ls rule: attemptLoop.induct)
  case (1 P k req bb env a c le ls)
  note le = "1.prems"
  show ?case
  proof (cases "attemptOnce P k c req bb (env a) a le ls")
    case (Continue c' le' ls')
    have lt: "a + 1 \<le> maxRetries k"
    proof (rule ccontr)
      assume "\<not> a + 1 \<le> maxRetries k"
      then have "maxRetries k \<le> a" by simp
      then show False using attemptOnce_last_attempt Continue by blast
    qed
    have eq: "attemptLoop P k req bb env a c le ls
                = attemptLoop P k req bb env (a + 1) c' le' ls'"
      using le Continue by (simp add: attemptLoop.simps [of P k req bb env a])
    from "1.IH" [OF le Continue lt] obtain a' c1 le1 ls1 where
      h: "a + 1 \<le> a'" "a' \<le> maxRetries k"
         "(case attemptOnce P k c1 req bb (env a') a' le1 ls1 of
             Continue c' le' ls' \<Rightarrow> False
           | Return b st er c'' \<Rightarrow>
               attemptLoop P k req bb env (a + 1) c' le' ls' = (Returned b st er, c'')
           | Panic c'' \<Rightarrow> attemptLoop P k req bb env (a + 1) c' le' ls' = (Panicked, c''))"
      by blast
    have "a \<le> a'" using h(1) by simp
    then show ?thesis unfolding eq using h(2) h(3) by blast
  next
    case (Return b st er c')
    then have "attemptLoop P k req bb env a c le ls = (Returned b st er, c')"
      using le by (simp add: attemptLoop.simps [of P k req bb env a])
    then show ?thesis
      using le Return
      by (intro exI [of _ a] exI [of _ c] exI [of _ le] exI [of _ ls]) simp
  next
    case (Panic c')
    then have "attemptLoop P k req bb env a c le ls = (Panicked, c')"
      using le by (simp add: attemptLoop.simps [of P k req bb env a])
    then show ?thesis
      using le Panic
      by (intro exI [of _ a] exI [of _ c] exI [of _ le] exI [of _ ls]) simp
  qed
qed

text \<open>
  C9, as stated, fails: with \<open>maxRetries = 0\<close> and the retryable set \<open>{202, 429}\<close> a response
  with status 202 is not retried, is below 400, and \<open>Do\<close> returns it as a success, with no
  error.
\<close>

theorem maxRetries_zero_counterexample:
  "maxRetries (cfg (New [WithRetry 0 (10 * Millisecond), WithRetryableStatus [202, 429]])) = 0
   \<and> lookupStatus
        (retryableStatus (cfg (New [WithRetry 0 (10 * Millisecond), WithRetryableStatus [202, 429]])))
        202
   \<and> fst (Do amd64 (serverAlways (respond 202 ''queued'')) getRequest
            (New [WithRetry 0 (10 * Millisecond), WithRetryableStatus [202, 429]]))
       = Returned (Some ''queued'') 202 None"
  by (simp add: eval_defs)

text \<open>
  C9 (amended). For every client with \<open>maxRetries = 0\<close>: when the first attempt of a call
  (past the first wait, the request body captured) observes a response, its body read
  without error, whose status is in the retryable set and is at least 400, the retry
  decision is false, and \<open>Do\<close> returns the response body, that status and a terminal HTTP
  status error, after exactly one round trip.
\<close>

theorem maxRetries_zero_terminal:
  assumes m0: "maxRetries (cfg c) = 0"
      and pw: "passesFirstWait env c"
      and cb: "captureBody (reqBody req) = Inr bb"
      and rt: "roundTrip (attempts env 0) = Inr resp"
      and rd: "readAllLimited (maxResponseSize (cfg c)) (Body resp) = Inr rb"
      and rs: "lookupStatus (retryableStatus (cfg c)) (StatusCode resp)"
      and st: "400 \<le> StatusCode resp"
  shows "\<not> shouldRetry (cfg c) 0 (Some resp) None
       \<and> fst (Do P env req c)
           = Returned (Some rb) (StatusCode resp) (Some (HTTPStatus (StatusCode resp) rb))
       \<and> roundTrips (snd (Do P env req c)) = roundTrips c + 1"
proof -
  let ?k = "cfg c"
  let ?c1 = "c\<lparr>totalReqs := totalReqs c + 1\<rparr>"
  have le: "maxRetries ?k \<le> 0" using m0 by simp
  have sr: "\<not> shouldRetry ?k 0 (Some resp) None" using le by (rule shouldRetry_last_attempt)
  let ?c4 = "notify (responseHook ?k) EvResponseHook
               (logEvent (EvTransport 0 bb) (notify (requestHook ?k) EvRequestHook ?c1))"
  obtain c' where cl: "classify P ?k ?c4 req (attempts env 0) 0 resp rb
        = Return (Some rb) (StatusCode resp) (Some (HTTPStatus (StatusCode resp) rb)) c'"
      and rt': "roundTrips c' = roundTrips ?c4"
    using st by (simp add: classify_last_attempt [OF le] Let_def)
  have once: "attemptOnce P ?k ?c1 req bb (attempts env 0) 0 None 0
        = Return (Some rb) (StatusCode resp) (Some (HTTPStatus (StatusCode resp) rb)) c'"
    using rt rd cl by (simp add: attemptOnce_def roundTripOnce_def Let_def)
  have loop: "attemptLoop P ?k req bb (attempts env) 0 ?c1 None 0
        = (Returned (Some rb) (StatusCode resp) (Some (HTTPStatus (StatusCode resp) rb)), c')"
    using m0 once by (simp add: attemptLoop.simps [of P ?k req bb "attempts env" 0])
  have do: "Do P env req c
        = (Returned (Some rb) (StatusCode resp) (Some (HTTPStatus (StatusCode resp) rb)), c')"
    using pw cb loop by (simp add: Do_def passesFirstWait_def Let_def)
  have "roundTrips c' = roundTrips c + 1" using rt' by simp
  then show ?thesis using sr do by simp
qed

theorem maxRetries_zero_terminal_witness:
  "maxRetries (cfg (New [WithRetry 0 (10 * Millisecond)])) = 0
   \<and> passesFirstWait (serverAlways (respond 429 ''slow down'')) (New [WithRetry 0 (10 * Millisecond)])
   \<and> captureBody (reqBody getRequest) = Inr None
   \<and> roundTrip (attempts (serverAlways (respond 429 ''slow down'')) 0)
       = Inr (respond 429 ''slow down'')
   \<and> readAllLimited (maxResponseSize (cfg (New [WithRetry 0 (10 * Millisecond)])))
        (Body (respond 429 ''slow down'')) = Inr ''slow down''
   \<and> lookupStatus (retryableStatus (cfg (New [WithRetry 0 (10 * Millisecond)])))
        (StatusCode (respond 429 ''slow down''))
   \<and> 400 \<le> StatusCode (respond 429 ''slow down'')
   \<and> fst (Do amd64 (serverAlways (respond 429 ''slow down'')) getRequest
            (New [WithRetry 0 (10 * Millisecond)]))
       = Returned (Some ''slow down'') 429 (Some (HTTPStatus 429 ''slow down''))
   \<and> roundTrips (snd (Do amd64 (serverAlways (respond 429 ''slow down'')) getRequest
            (New [WithRetry 0 (10 * Millisecond)]))) = 1"
  using maxRetries_zero_terminal
          [of "New [WithRetry 0 (10 * Millisecond)]" "serverAlways (respond 429 ''slow down'')"
              getRequest None "respond 429 ''slow down''" "''slow down''" amd64]
  by (simp add: New_def buildConfig_def defaultConfig_def passesFirstWait_def waitRateLimit_def
        serverAlways_def respond_def getRequest_def captureBody_def readAllLimited_def readAll_def
        lookupStatus_def roundTrips_def StatusTooManyRequests_def StatusServiceUnavailable_def
        Let_def)

text \<open>
  C2 does not hold of the code. The claim: when every attempt produced a retryable
  response and the retries are used up, \<open>Do\<close> returns a nil body, the last status and a
  max-retries-exceeded error that wraps the last attempt's error. The code, with
  \<open>maxRetries = 2\<close> against a server that always answers 429: the third attempt is not
  retried and returns on the spot, with the response body, 429 and the terminal HTTP
  status error. The return after the loop is reached only with a negative \<open>maxRetries\<close>,
  where no attempt is made: status 0, and nothing to wrap.
\<close>

theorem exhaustion_returns_status_error:
  "fst (Do amd64 (serverAlways (respond 429 [])) getRequest (New [WithRetry 2 (10 * Millisecond)]))
     = Returned (Some []) 429 (Some (HTTPStatus 429 []))
   \<and> roundTrips (snd (Do amd64 (serverAlways (respond 429 [])) getRequest
        (New [WithRetry 2 (10 * Millisecond)]))) = 3
   \<and> totalErrors (snd (Do amd64 (serverAlways (respond 429 [])) getRequest
        (New [WithRetry 2 (10 * Millisecond)]))) = 3
   \<and> fst (Do amd64 (serverAlways (respond 429 [])) getRequest (New [WithRetry (- 1) (10 * Millisecond)]))
     = Returned None 0 (Some (MaxRetriesExceeded (- 1) None))"
  by (simp add: eval_defs roundTrips_def isRoundTrip_def)

subsection \<open>Retry-After\<close>

text \<open>What holds of \<open>parseRetryAfter\<close> on every platform: the empty string gives zero; a
  string that neither \<open>ParseFloat\<close> nor any layout accepts gives zero; the result for a
  string and for its trimmed form agree, \<open>TrimSpace\<close> being idempotent and the parsers
  rejecting the empty string; a non-negative number of seconds is rounded up to whole
  seconds as long as the result fits into a \<open>time.Duration\<close>; a date in the past gives
  zero.\<close>

lemma parseRetryAfter_empty: "parseRetryAfter P now [] = 0"
  by (simp add: parseRetryAfter_def)

lemma tryLayouts_none:
  "(\<And>l. Parse P l v = None) \<Longrightarrow> tryLayouts P now v ls = 0"
  by (induction ls) simp_all

lemma parseRetryAfter_unparseable:
  assumes "ParseFloat P (TrimSpace P s) = None" and "\<And>l. Parse P l (TrimSpace P s) = None"
  shows "parseRetryAfter P now s = 0"
  using assms by (simp add: parseRetryAfter_def Let_def tryLayouts_none)

lemma parseRetryAfter_trim:
  assumes idem: "TrimSpace P (TrimSpace P s) = TrimSpace P s"
      and nil: "TrimSpace P [] = []"
      and pf: "ParseFloat P [] = None"
      and tp: "\<And>l. Parse P l [] = None"
  shows "parseRetryAfter P now (TrimSpace P s) = parseRetryAfter P now s"
proof (cases "TrimSpace P s = []")
  case True
  have "parseRetryAfter P now s = 0"
    by (rule parseRetryAfter_unparseable) (simp_all add: True pf tp)
  then show ?thesis by (simp add: True parseRetryAfter_empty)
next
  case False
  then have "s \<noteq> []" using nil by auto
  then show ?thesis using False by (simp add: parseRetryAfter_def idem)
qed

lemma sint_seconds:
  assumes "0 \<le> n" "n * 1000000000 < 2 ^ 63"
  shows "sint ((word_of_int n :: 64 word) * Second) = n * 1000000000"
proof -
  have "(word_of_int n :: 64 word) * Second = word_of_int (n * 1000000000)"
    by (simp add: Second_def)
  moreover have "sint (word_of_int (n * 1000000000) :: 64 word) = n * 1000000000"
  proof (rule sint_word_of_int64)
    have "0 \<le> n * 1000000000" using assms(1) by simp
    moreover have "- (2 ^ 63) \<le> (0::int)" by simp
    ultimately show "- (2 ^ 63) \<le> n * 1000000000" by linarith
    show "n * 1000000000 < 2 ^ 63" by (rule assms(2))
  qed
  ultimately show ?thesis by simp
qed

lemma parseRetryAfter_seconds:
  assumes "s \<noteq> []" and "ParseFloat P (TrimSpace P s) = Some (Finite x)" and "0 \<le> x"
      and "\<lceil>x\<rceil> * 1000000000 < 2 ^ 63"
  shows "sint (parseRetryAfter P now s) = \<lceil>x\<rceil> * 1000000000"
proof -
  have c0: "0 \<le> \<lceil>x\<rceil>" using assms(3) by (simp add: ceiling_le_iff [symmetric] le_ceiling_iff)
  have c63: "\<lceil>x\<rceil> < 2 ^ 63" using assms(4) c0 by linarith
  have lo: "- (2 ^ 63) \<le> \<lceil>x\<rceil>"
  proof -
    have "- (2 ^ 63) \<le> (0::int)" by simp
    then show ?thesis using c0 by linarith
  qed
  have "float64ToDuration P (Ceil (Finite x)) = word_of_int \<lceil>x\<rceil>"
    using c0 c63 lo by (simp add: float64ToDuration_def toDuration_def Let_def)
  then have "parseRetryAfter P now s = word_of_int \<lceil>x\<rceil> * Second"
    using assms(1,2,3) by (simp add: parseRetryAfter_def Let_def)
  then show ?thesis using sint_seconds [OF c0 assms(4)] by simp
qed

lemma Until_past: "t \<le> now \<Longrightarrow> Until now t <s 0 \<or> Until now t = 0"
proof -
  assume le: "t \<le> now"
  define d :: int where "d = max (- (2 ^ 63)) (min (2 ^ 63 - 1) (t - now))"
  have u: "Until now t = word_of_int d" by (simp only: Until_def d_def)
  have r1: "- (2 ^ 63) \<le> d" by (simp add: d_def)
  have r2: "d \<le> 0" using le by (simp add: d_def)
  have r3: "d < 2 ^ 63"
  proof -
    have "(0::int) < 2 ^ 63" by simp
    then show ?thesis using r2 by linarith
  qed
  have s: "sint (Until now t) = d"
    unfolding u using r1 r3 by (rule sint_word_of_int64)
  show ?thesis
  proof (cases "d = 0")
    case True
    then have "Until now t = 0" using u by simp
    then show ?thesis by simp
  next
    case False
    then have "d < 0" using r2 by linarith
    then have "Until now t <s 0" unfolding word_sless_alt s by simp
    then show ?thesis by simp
  qed
qed

lemma tryLayouts_past:
  "(\<And>l t. Parse P l v = Some t \<Longrightarrow> t \<le> now) \<Longrightarrow> tryLayouts P now v ls = 0"
proof (induction ls)
  case Nil
  then show ?case by simp
next
  case (Cons l ls)
  show ?case
  proof (cases "Parse P l v")
    case None
    then show ?thesis using Cons by simp
  next
    case (Some t)
    then have "t \<le> now" using Cons.prems by blast
    then show ?thesis using Some Until_past [of t now] by (auto simp: Let_def)
  qed
qed

lemma parseRetryAfter_past_date:
  assumes "ParseFloat P (TrimSpace P s) = None"
      and "\<And>l t. Parse P l (TrimSpace P s) = Some t \<Longrightarrow> t \<le> now"
  shows "parseRetryAfter P now s = 0"
proof -
  have "tryLayouts P now (TrimSpace P s) [RFC1123, RFC850, ANSIC] = 0"
    using assms(2) by (rule tryLayouts_past)
  then show ?thesis
    using assms(1) by (simp add: parseRetryAfter_def Let_def del: tryLayouts.simps)
qed

lemma dropWhile_rev_dropWhile:
  "dropWhile p (rev (dropWhile p (rev (dropWhile p s)))) = rev (dropWhile p (rev (dropWhile p s)))"
proof (cases "dropWhile p s")
  case Nil
  show ?thesis unfolding Nil by simp
next
  case (Cons x xs)
  then have nx: "\<not> p x" by (metis hd_dropWhile list.distinct(1) list.sel(1))
  have "rev (dropWhile p (rev (x # xs))) \<noteq> [] \<and> hd (rev (dropWhile p (rev (x # xs)))) = x"
    using nx by (induction xs rule: rev_induct) auto
  then show ?thesis unfolding Cons by (cases "rev (dropWhile p (rev (x # xs)))") (use nx in auto)
qed

lemma trimAscii_idem: "trimAscii (trimAscii s) = trimAscii s"
proof -
  let ?t = "rev (dropWhile isSpace (rev (dropWhile isSpace s)))"
  have "dropWhile isSpace ?t = ?t" by (rule dropWhile_rev_dropWhile)
  then show ?thesis by (simp add: trimAscii_def dropWhile_idem)
qed

lemma parseRetryAfter_examples:
  "parseRetryAfter amd64 now '''' = 0"
  "parseRetryAfter amd64 now ''garbage'' = 0"
  "parseRetryAfter amd64 now ''5'' = 5 * Second"
  "parseRetryAfter amd64 now ''0'' = 0"
  "parseRetryAfter amd64 now '' 1.5 '' = 2 * Second"
  "parseRetryAfter amd64 784111778000000000 ''Sun, 06 Nov 1994 08:49:37 GMT'' = 0"
  "parseRetryAfter amd64 784111770000000000 ''Sunday, 06-Nov-94 08:49:37 GMT'' = 7 * Second"
  by (simp_all add: parseRetryAfter_def amd64_def trimAscii_def isSpace_def parseDecimal_def
      parseUnsigned_def isDigit_def digitsValue_def float64ToDuration_def toDuration_def
      parseExamples_def Until_def Second_def Let_def word_sless_alt)

text \<open>
  C6 does not hold of the code. The claim: a non-negative decimal number of seconds
  yields that value rounded up to the next whole second (next to: parsing a string and
  its trimmed form agree, the empty and the unparseable string give zero, a date in the
  past gives zero). The code multiplies the rounded seconds by \<open>time.Second\<close> in 64 bits
  without a check: for the header value \<open>9223372037\<close> the product wraps and
  \<open>parseRetryAfter\<close> returns a negative duration, where the branch for dates does guard
  against a negative result.
\<close>

theorem parseRetryAfter_seconds_overflow:
  "parseDecimal ''9223372037'' = Some (Finite 9223372037)
   \<and> sint (parseRetryAfter amd64 now ''9223372037'') = - 9223372036709551616
   \<and> parseRetryAfter amd64 now ''9223372037'' <s 0"
  by (simp add: parseRetryAfter_def amd64_def trimAscii_def isSpace_def parseDecimal_def
      parseUnsigned_def isDigit_def digitsValue_def float64ToDuration_def toDuration_def
      Second_def Let_def word_sless_alt)

end
